theory Spec2Isabelle
  imports Main "HOL-Library.Multiset"
begin

section \<open>Python values\<close>

text \<open>
  A Python \<open>str\<close> is modelled as a \<open>string\<close> whose characters are the code points
  0..255; the methods below are the ones \<open>main.py\<close> calls, written out for that range.
  Code points above 255 and floating-point numbers have no representation here.
\<close>

definition isspace :: "char \<Rightarrow> bool" where
  "isspace c = ((of_char c :: nat) \<in> {0x09, 0x0A, 0x0B, 0x0C, 0x0D, 0x1C, 0x1D, 0x1E, 0x1F, 0x20, 0x85, 0xA0})"

definition lower_char :: "char \<Rightarrow> char" where
  "lower_char c =
     (let n = (of_char c :: nat) in
      if (0x41 \<le> n \<and> n \<le> 0x5A) \<or> (0xC0 \<le> n \<and> n \<le> 0xDE \<and> n \<noteq> 0xD7)
      then char_of (n + 0x20) else c)"

text \<open>\<open>s.lower()\<close>\<close>

definition lower :: "string \<Rightarrow> string" where
  "lower s = map lower_char s"

text \<open>\<open>s.strip()\<close>: leading and trailing whitespace removed.\<close>

definition strip :: "string \<Rightarrow> string" where
  "strip s = rev (dropWhile isspace (rev (dropWhile isspace s)))"

text \<open>\<open>s.endswith(suffix)\<close>\<close>

definition endswith :: "string \<Rightarrow> string \<Rightarrow> bool" where
  "endswith s suf = (length suf \<le> length s \<and> drop (length s - length suf) s = suf)"

text \<open>
  The values a JSON document is made of, as Python objects: \<open>None\<close>, \<open>bool\<close>, \<open>int\<close>,
  \<open>str\<close>, \<open>list\<close> and \<open>dict\<close> (keys in insertion order). A response body and a bracket
  payload are both values of this type.
\<close>

datatype "value" =
    VNone
  | VBool bool
  | VInt int
  | VStr string
  | VList "value list"
  | VDict "(string \<times> value) list"

text \<open>
  What a request can end with instead of a response: \<open>HTTPException(status_code, detail)\<close>,
  the decoder's \<open>JSONDecodeError\<close>, and the database's \<open>IntegrityError\<close>. The last two
  constructors belong to the embedding alone: \<open>NotModelled\<close> marks a text whose value
  has no representation here, \<open>FuelExhausted\<close> the end of the decoder's call bound.
\<close>

datatype error =
    HTTPException nat string
  | JSONDecodeError
  | IntegrityError
  | NotModelled
  | FuelExhausted

section \<open>\<open>json.dumps\<close>\<close>

text \<open>
  The encoder with its default arguments: \<open>ensure_ascii=True\<close>, item separator
  \<open>", "\<close>, key separator \<open>": "\<close>. Every character outside \<open>' '..'~'\<close>, the quote and the
  backslash are escaped.
\<close>

definition hex_char :: "nat \<Rightarrow> char" where
  "hex_char d = (if d < 10 then char_of (0x30 + d) else char_of (0x57 + d))"

definition escape_char :: "char \<Rightarrow> string" where
  "escape_char c =
     (let n = (of_char c :: nat) in
      if n = 0x22 then [CHR 0x5C, CHR 0x22]
      else if n = 0x5C then [CHR 0x5C, CHR 0x5C]
      else if n = 0x0A then [CHR 0x5C, CHR ''n'']
      else if n = 0x0D then [CHR 0x5C, CHR ''r'']
      else if n = 0x09 then [CHR 0x5C, CHR ''t'']
      else if n = 0x08 then [CHR 0x5C, CHR ''b'']
      else if n = 0x0C then [CHR 0x5C, CHR ''f'']
      else if 0x20 \<le> n \<and> n \<le> 0x7E then [c]
      else [CHR 0x5C, CHR ''u'', CHR ''0'', CHR ''0'', hex_char (n div 16), hex_char (n mod 16)])"

definition encode_basestring_ascii :: "string \<Rightarrow> string" where
  "encode_basestring_ascii s = CHR 0x22 # concat (map escape_char s) @ [CHR 0x22]"

fun digits_of :: "nat \<Rightarrow> string" where
  "digits_of n =
     (if n < 10 then [char_of (0x30 + n)]
      else digits_of (n div 10) @ [char_of (0x30 + n mod 10)])"

declare digits_of.simps [simp del]

definition int_repr :: "int \<Rightarrow> string" where
  "int_repr i = (if i < 0 then CHR ''-'' # digits_of (nat (- i)) else digits_of (nat i))"

fun json_dumps :: "value \<Rightarrow> string"
  and dumps_list :: "value list \<Rightarrow> string"
  and dumps_dict :: "(string \<times> value) list \<Rightarrow> string"
where
  "json_dumps VNone = ''null''"
| "json_dumps (VBool b) = (if b then ''true'' else ''false'')"
| "json_dumps (VInt i) = int_repr i"
| "json_dumps (VStr s) = encode_basestring_ascii s"
| "json_dumps (VList xs) = CHR ''['' # dumps_list xs @ '']''"
| "json_dumps (VDict kvs) = CHR ''{'' # dumps_dict kvs @ ''}''"
| "dumps_list [] = []"
| "dumps_list [x] = json_dumps x"
| "dumps_list (x # y # ys) = json_dumps x @ '', '' @ dumps_list (y # ys)"
| "dumps_dict [] = []"
| "dumps_dict [(k, v)] = encode_basestring_ascii k @ '': '' @ json_dumps v"
| "dumps_dict ((k, v) # kv # kvs) =
     encode_basestring_ascii k @ '': '' @ json_dumps v @ '', '' @ dumps_dict (kv # kvs)"

section \<open>\<open>json.loads\<close>\<close>

text \<open>
  The decoder with its default arguments (\<open>strict=True\<close>, no hooks). A float literal,
  \<open>NaN\<close>, \<open>Infinity\<close> and an escape above code point 255 yield \<open>NotModelled\<close>: the
  code accepts them, this embedding has no value for them. Everything else the decoder
  rejects is \<open>JSONDecodeError\<close>.
\<close>

definition is_ws :: "char \<Rightarrow> bool" where
  "is_ws c = ((of_char c :: nat) \<in> {0x20, 0x09, 0x0A, 0x0D})"

definition skip_ws :: "string \<Rightarrow> string" where
  "skip_ws s = dropWhile is_ws s"

definition is_digit :: "char \<Rightarrow> bool" where
  "is_digit c = (0x30 \<le> (of_char c :: nat) \<and> (of_char c :: nat) \<le> 0x39)"

definition hex_val :: "char \<Rightarrow> nat option" where
  "hex_val c =
     (let n = (of_char c :: nat) in
      if 0x30 \<le> n \<and> n \<le> 0x39 then Some (n - 0x30)
      else if 0x61 \<le> n \<and> n \<le> 0x66 then Some (n - 0x57)
      else if 0x41 \<le> n \<and> n \<le> 0x46 then Some (n - 0x37)
      else None)"

definition hex4 :: "char \<Rightarrow> char \<Rightarrow> char \<Rightarrow> char \<Rightarrow> nat option" where
  "hex4 a b c d =
     (case (hex_val a, hex_val b, hex_val c, hex_val d) of
        (Some w, Some x, Some y, Some z) \<Rightarrow> Some (((w * 16 + x) * 16 + y) * 16 + z)
      | _ \<Rightarrow> None)"

definition unescape :: "char \<Rightarrow> char option" where
  "unescape e =
     (if e = CHR 0x22 then Some (CHR 0x22)
      else if e = CHR 0x5C then Some (CHR 0x5C)
      else if e = CHR ''/'' then Some (CHR ''/'')
      else if e = CHR ''b'' then Some (CHR 0x08)
      else if e = CHR ''f'' then Some (CHR 0x0C)
      else if e = CHR ''n'' then Some (CHR 0x0A)
      else if e = CHR ''r'' then Some (CHR 0x0D)
      else if e = CHR ''t'' then Some (CHR 0x09)
      else None)"

definition cons_result :: "char \<Rightarrow> error + (string \<times> string) \<Rightarrow> error + (string \<times> string)" where
  "cons_result c r = (case r of Inl e \<Rightarrow> Inl e | Inr (t, rest) \<Rightarrow> Inr (c # t, rest))"

text \<open>\<open>scanstring\<close>: the text after an opening quote, up to the closing one.\<close>

fun scanstring :: "string \<Rightarrow> error + (string \<times> string)" where
  "scanstring [] = Inl JSONDecodeError"
| "scanstring (c # cs) =
     (if c = CHR 0x22 then Inr ([], cs)
      else if c = CHR 0x5C then
        (case cs of
           [] \<Rightarrow> Inl JSONDecodeError
         | e # r \<Rightarrow>
             if e = CHR ''u'' then
               (case r of
                  h1 # h2 # h3 # h4 # r' \<Rightarrow>
                    (case hex4 h1 h2 h3 h4 of
                       None \<Rightarrow> Inl JSONDecodeError
                     | Some n \<Rightarrow>
                         if n < 256 then cons_result (char_of n) (scanstring r')
                         else Inl NotModelled)
                | _ \<Rightarrow> Inl JSONDecodeError)
             else
               (case unescape e of
                  None \<Rightarrow> Inl JSONDecodeError
                | Some ch \<Rightarrow> cons_result ch (scanstring r)))
      else if (of_char c :: nat) < 0x20 then Inl JSONDecodeError
      else cons_result c (scanstring cs))"

definition digits_val :: "string \<Rightarrow> nat" where
  "digits_val ds = foldl (\<lambda>a d. 10 * a + (of_char d - 0x30)) 0 ds"

definition has_frac :: "string \<Rightarrow> bool" where
  "has_frac s = (case s of c # d # _ \<Rightarrow> c = CHR ''.'' \<and> is_digit d | _ \<Rightarrow> False)"

definition has_exp :: "string \<Rightarrow> bool" where
  "has_exp s =
     (case s of
        c # d # r \<Rightarrow>
          (c = CHR ''e'' \<or> c = CHR ''E'') \<and>
          (is_digit d \<or> ((d = CHR ''+'' \<or> d = CHR ''-'') \<and> (case r of x # _ \<Rightarrow> is_digit x | [] \<Rightarrow> False)))
      | _ \<Rightarrow> False)"

text \<open>
  The number branch of \<open>scan_once\<close>: \<open>NUMBER_RE\<close> is
  \<open>(-?(?:0|[1-9][0-9]*))(\.[0-9]+)?([eE][-+]?[0-9]+)?\<close>; without a match the constants
  \<open>NaN\<close>, \<open>Infinity\<close> and \<open>-Infinity\<close> are tried.
\<close>

definition scan_number :: "string \<Rightarrow> error + (value \<times> string)" where
  "scan_number s =
     (let neg = (s \<noteq> [] \<and> hd s = CHR ''-'');
          s1 = (if neg then tl s else s)
      in if s1 \<noteq> [] \<and> is_digit (hd s1) then
           (let ds = (if hd s1 = CHR ''0'' then [hd s1] else takeWhile is_digit s1);
                rest = drop (length ds) s1
            in if has_frac rest \<or> has_exp rest then Inl NotModelled
               else Inr (VInt (if neg then - int (digits_val ds) else int (digits_val ds)), rest))
         else if take 3 s = ''NaN'' \<or> take 8 s = ''Infinity'' \<or> take 9 s = ''-Infinity''
           then Inl NotModelled
         else Inl JSONDecodeError)"

text \<open>\<open>dict(pairs)\<close>: a later pair with a key already present replaces its value in place.\<close>

fun dict_set :: "string \<Rightarrow> value \<Rightarrow> (string \<times> value) list \<Rightarrow> (string \<times> value) list" where
  "dict_set k v [] = [(k, v)]"
| "dict_set k v ((k', v') # kvs) =
     (if k = k' then (k', v) # kvs else (k', v') # dict_set k v kvs)"

definition dict :: "(string \<times> value) list \<Rightarrow> (string \<times> value) list" where
  "dict pairs = foldl (\<lambda>d kv. dict_set (fst kv) (snd kv) d) [] pairs"

text \<open>
  \<open>scan_once\<close>, \<open>JSONArray\<close> and \<open>JSONObject\<close> call each other; the first argument
  bounds the depth of these calls. \<open>JSONArray\<close> starts at an element, \<open>JSONObject\<close>
  after the opening quote of a key.
\<close>

fun scan_once :: "nat \<Rightarrow> string \<Rightarrow> error + (value \<times> string)"
  and JSONArray :: "nat \<Rightarrow> string \<Rightarrow> error + (value list \<times> string)"
  and JSONObject :: "nat \<Rightarrow> string \<Rightarrow> error + ((string \<times> value) list \<times> string)"
where
  "scan_once 0 s = Inl FuelExhausted"
| "scan_once (Suc n) [] = Inl JSONDecodeError"
| "scan_once (Suc n) (c # cs) =
     (if c = CHR 0x22 then
        (case scanstring cs of Inl e \<Rightarrow> Inl e | Inr (t, r) \<Rightarrow> Inr (VStr t, r))
      else if c = CHR ''{'' then
        (let s1 = skip_ws cs in
         if s1 \<noteq> [] \<and> hd s1 = CHR ''}'' then Inr (VDict [], tl s1)
         else if s1 \<noteq> [] \<and> hd s1 = CHR 0x22 then
           (case JSONObject n (tl s1) of
              Inl e \<Rightarrow> Inl e
            | Inr (pairs, r) \<Rightarrow> Inr (VDict (dict pairs), r))
         else Inl JSONDecodeError)
      else if c = CHR ''['' then
        (let s1 = skip_ws cs in
         if s1 \<noteq> [] \<and> hd s1 = CHR '']'' then Inr (VList [], tl s1)
         else
           (case JSONArray n s1 of
              Inl e \<Rightarrow> Inl e
            | Inr (vs, r) \<Rightarrow> Inr (VList vs, r)))
      else if take 4 (c # cs) = ''null'' then Inr (VNone, drop 4 (c # cs))
      else if take 4 (c # cs) = ''true'' then Inr (VBool True, drop 4 (c # cs))
      else if take 5 (c # cs) = ''false'' then Inr (VBool False, drop 5 (c # cs))
      else scan_number (c # cs))"
| "JSONArray 0 s = Inl FuelExhausted"
| "JSONArray (Suc n) s =
     (case scan_once n s of
        Inl e \<Rightarrow> Inl e
      | Inr (v, r) \<Rightarrow>
          (let r1 = skip_ws r in
           if r1 \<noteq> [] \<and> hd r1 = CHR '']'' then Inr ([v], tl r1)
           else if r1 \<noteq> [] \<and> hd r1 = CHR '','' then
             (case JSONArray n (skip_ws (tl r1)) of
                Inl e \<Rightarrow> Inl e
              | Inr (vs, r2) \<Rightarrow> Inr (v # vs, r2))
           else Inl JSONDecodeError))"
| "JSONObject 0 s = Inl FuelExhausted"
| "JSONObject (Suc n) s =
     (case scanstring s of
        Inl e \<Rightarrow> Inl e
      | Inr (key, r) \<Rightarrow>
          (let r1 = skip_ws r in
           if r1 \<noteq> [] \<and> hd r1 = CHR '':'' then
             (case scan_once n (skip_ws (tl r1)) of
                Inl e \<Rightarrow> Inl e
              | Inr (v, r2) \<Rightarrow>
                  (let r3 = skip_ws r2 in
                   if r3 \<noteq> [] \<and> hd r3 = CHR ''}'' then Inr ([(key, v)], tl r3)
                   else if r3 \<noteq> [] \<and> hd r3 = CHR '','' then
                     (let r4 = skip_ws (tl r3) in
                      if r4 \<noteq> [] \<and> hd r4 = CHR 0x22 then
                        (case JSONObject n (tl r4) of
                           Inl e \<Rightarrow> Inl e
                         | Inr (kvs, r5) \<Rightarrow> Inr ((key, v) # kvs, r5))
                      else Inl JSONDecodeError)
                   else Inl JSONDecodeError))
           else Inl JSONDecodeError))"

text \<open>
  \<open>json.loads(s)\<close>: leading whitespace, one value, trailing whitespace, end of text.
  The bound handed to \<open>scan_once\<close> exceeds every chain of calls a text of this length
  can cause (\<open>json_loads_fuel\<close> below), so it never decides the result.
\<close>

definition json_loads :: "string \<Rightarrow> error + value" where
  "json_loads s =
     (case scan_once (Suc (2 * length s)) (skip_ws s) of
        Inl e \<Rightarrow> Inl e
      | Inr (v, r) \<Rightarrow> if skip_ws r = [] then Inr v else Inl JSONDecodeError)"

section \<open>The table \<open>entries\<close> (\<open>models.py\<close>)\<close>

text \<open>
  One row of \<open>Entry\<close>. An instant (\<open>DateTime(timezone=True)\<close>, \<open>datetime\<close>) is the number
  of microseconds since the Unix epoch; \<open>username\<close> and \<open>bracket\<close> are nullable. The
  column \<open>created_at\<close> is filled by its server default on every insert, so a row always
  has one.
\<close>

record Entry =
  id' :: int
  name :: string
  email :: string
  username :: "string option"
  bracket :: "string option"
  score :: int
  locked :: bool
  created_at :: int

text \<open>
  Modelled from the spec: \<open>db.py\<close> (\<open>Base\<close>, \<open>engine\<close>, \<open>SessionLocal\<close>) is missing, and
  with it the database the session talks to. The session is the durable table, a list of
  rows in insertion order, with the operations \<open>main.py\<close> uses on it: a filtered query's
  \<open>first()\<close>; \<open>order_by(...).all()\<close>, a sort by the given ordering in which rows that
  compare equal stay in insertion order (the database promises no order among them); and
  \<open>add\<close>/\<open>commit\<close>/\<open>refresh\<close>, which assigns the next primary key, fills \<open>score\<close>,
  \<open>locked\<close> and \<open>created_at\<close> with the defaults of \<open>models.py\<close> and refuses a row that
  breaks \<open>uq_entries_email\<close>, leaving the table as it was.
\<close>

type_synonym Session = "Entry list"

definition query_first :: "(Entry \<Rightarrow> bool) \<Rightarrow> Session \<Rightarrow> Entry option" where
  "query_first P db = find P db"

fun insert_by :: "('a \<Rightarrow> 'a \<Rightarrow> bool) \<Rightarrow> 'a \<Rightarrow> 'a list \<Rightarrow> 'a list" where
  "insert_by le x [] = [x]"
| "insert_by le x (y # ys) = (if le x y then x # y # ys else y # insert_by le x ys)"

definition order_by :: "('a \<Rightarrow> 'a \<Rightarrow> bool) \<Rightarrow> 'a list \<Rightarrow> 'a list" where
  "order_by le rows = foldr (insert_by le) rows []"

definition next_id :: "Session \<Rightarrow> int" where
  "next_id db = foldr max (map id' db) 0 + 1"

definition add_commit ::
  "string \<Rightarrow> string \<Rightarrow> string option \<Rightarrow> int \<Rightarrow> Session \<Rightarrow> error + (Entry \<times> Session)" where
  "add_commit nm em un db_now db =
     (if \<exists>r \<in> set db. email r = em then Inl IntegrityError
      else
        (let e = \<lparr>id' = next_id db, name = nm, email = em, username = un, bracket = None,
                   score = 0, locked = False, created_at = db_now\<rparr>
         in Inr (e, db @ [e])))"

text \<open>\<open>entry.bracket = text; db.commit()\<close> on the row a query by \<open>id\<close> returned.\<close>

fun set_bracket :: "int \<Rightarrow> string \<Rightarrow> Session \<Rightarrow> Session" where
  "set_bracket i t [] = []"
| "set_bracket i t (r # rs) =
     (if id' r = i then r\<lparr>bracket := Some t\<rparr> # rs else r # set_bracket i t rs)"

text \<open>The constraints of the table: the primary key and \<open>uq_entries_email\<close>.\<close>

definition constraints :: "Session \<Rightarrow> bool" where
  "constraints db = (distinct (map id' db) \<and> distinct (map email db))"

section \<open>The endpoints (\<open>main.py\<close>)\<close>

text \<open>
  \<open>datetime(2026, 3, 19, 0, 0, tzinfo=ZoneInfo("America/New_York"))\<close> is
  2026-03-19T04:00:00Z. The clock reading \<open>datetime.now(...)\<close> is the argument \<open>now_et\<close>.
  Both values carry the same zone, so Python compares their wall-clock fields; no
  daylight-saving fold lies near the deadline, and the comparison is the one of the
  instants.
\<close>

definition BRACKET_DEADLINE :: int where
  "BRACKET_DEADLINE = 1773892800000000"

definition deadline_passed :: "int \<Rightarrow> bool" where
  "deadline_passed now_et = (now_et \<ge> BRACKET_DEADLINE)"

text \<open>The request body of \<open>POST /entries\<close>: \<open>name\<close>, \<open>email\<close>, \<open>username\<close>.\<close>

datatype EntryCreate = EntryCreate string string "string option"

type_synonym response = "(string \<times> value) list"

definition opt_str :: "string option \<Rightarrow> value" where
  "opt_str u = (case u of None \<Rightarrow> VNone | Some t \<Rightarrow> VStr t)"

text \<open>
  Every endpoint that writes returns its outcome together with the table as the request
  leaves it; \<open>db_now\<close> is the database server's clock at the insert.
\<close>

fun create_entry ::
  "int \<Rightarrow> int \<Rightarrow> EntryCreate \<Rightarrow> Session \<Rightarrow> (error + response) \<times> Session" where
  "create_entry now_et db_now (EntryCreate nm em un) db =
     (if deadline_passed now_et then
        (Inl (HTTPException 403 ''Bracket entry is closed (deadline passed).''), db)
      else
        (let email_norm = strip (lower em) in
         if \<not> endswith email_norm ''@stevens.edu'' then
           (Inl (HTTPException 400 ''Use your @stevens.edu email''), db)
         else
           (case query_first (\<lambda>r. email r = email_norm) db of
              Some existing \<Rightarrow> (Inl (HTTPException 409 ''Email already used''), db)
            | None \<Rightarrow>
                (case add_commit (strip nm) email_norm
                        (case un of None \<Rightarrow> None
                         | Some u \<Rightarrow> if u = [] then None else Some (strip u))
                        db_now db of
                   Inl e \<Rightarrow> (Inl e, db)
                 | Inr (new_entry, db') \<Rightarrow>
                     (Inr [(''id'', VInt (id' new_entry)),
                           (''name'', VStr (name new_entry)),
                           (''email'', VStr (email new_entry)),
                           (''username'', opt_str (username new_entry))], db')))))"

text \<open>\<open>json.loads(e.bracket) if e.bracket else {}\<close>\<close>

definition load_bracket :: "Entry \<Rightarrow> error + value" where
  "load_bracket e =
     (case bracket e of
        None \<Rightarrow> Inr (VDict [])
      | Some t \<Rightarrow> if t = [] then Inr (VDict []) else json_loads t)"

fun list_rows :: "Entry list \<Rightarrow> error + response list" where
  "list_rows [] = Inr []"
| "list_rows (e # es) =
     (case load_bracket e of
        Inl err \<Rightarrow> Inl err
      | Inr b \<Rightarrow>
          (case list_rows es of
             Inl err \<Rightarrow> Inl err
           | Inr rs \<Rightarrow>
               Inr ([(''id'', VInt (id' e)),
                     (''name'', VStr (name e)),
                     (''username'', opt_str (username e)),
                     (''bracket'', b),
                     (''locked'', VBool (locked e))] # rs)))"

definition list_entries :: "Session \<Rightarrow> error + response list" where
  "list_entries db = list_rows (order_by (\<lambda>a b. created_at a \<le> created_at b) db)"

definition get_entry :: "int \<Rightarrow> Session \<Rightarrow> error + response" where
  "get_entry entry_id db =
     (case query_first (\<lambda>r. id' r = entry_id) db of
        None \<Rightarrow> Inl (HTTPException 404 ''Entry not found'')
      | Some entry \<Rightarrow>
          (case load_bracket entry of
             Inl err \<Rightarrow> Inl err
           | Inr b \<Rightarrow>
               Inr [(''id'', VInt (id' entry)),
                    (''name'', VStr (name entry)),
                    (''email'', VStr (email entry)),
                    (''username'', opt_str (username entry)),
                    (''bracket'', b),
                    (''locked'', VBool (locked entry)),
                    (''score'', VInt (score entry))]))"

definition view_bracket :: "int \<Rightarrow> Session \<Rightarrow> error + response" where
  "view_bracket entry_id db =
     (case query_first (\<lambda>r. id' r = entry_id) db of
        None \<Rightarrow> Inl (HTTPException 404 ''Entry not found'')
      | Some entry \<Rightarrow>
          (case load_bracket entry of
             Inl err \<Rightarrow> Inl err
           | Inr b \<Rightarrow>
               Inr [(''id'', VInt (id' entry)),
                    (''name'', VStr (name entry)),
                    (''email'', VStr (email entry)),
                    (''username'', opt_str (username entry)),
                    (''bracket'', b),
                    (''locked'', VBool (locked entry))]))"

text \<open>The payload \<open>bracket: Dict\<close> is the list of the dictionary's items.\<close>

definition submit_bracket ::
  "int \<Rightarrow> int \<Rightarrow> (string \<times> value) list \<Rightarrow> Session \<Rightarrow> (error + response) \<times> Session" where
  "submit_bracket now_et entry_id bracket_doc db =
     (case query_first (\<lambda>r. id' r = entry_id) db of
        None \<Rightarrow> (Inl (HTTPException 404 ''Entry not found''), db)
      | Some entry \<Rightarrow>
          if deadline_passed now_et then
            (Inl (HTTPException 403 ''Bracket submissions are closed (deadline passed).''), db)
          else if locked entry then
            (Inl (HTTPException 403 ''Bracket is locked''), db)
          else
            (Inr [(''status'', VStr ''saved''), (''entry_id'', VInt entry_id)],
             set_bracket entry_id (json_dumps (VDict bracket_doc)) db))"









text \<open>Rows used to instantiate the theorems below.\<close>

definition row_a :: Entry where
  "row_a = \<lparr>id' = 1, name = ''Ann'', email = ''ann@stevens.edu'', username = None,
            bracket = None, score = 10, locked = False, created_at = 100\<rparr>"

definition row_b :: Entry where
  "row_b = \<lparr>id' = 2, name = ''Bob'', email = ''bob@stevens.edu'', username = Some ''bob'',
            bracket = None, score = 20, locked = True, created_at = 200\<rparr>"


definition row_d :: Entry where
  "row_d = \<lparr>id' = 4, name = ''Di'', email = ''di@stevens.edu'', username = Some ''di'',
            bracket = Some ''{}'', score = 0, locked = False, created_at = 50\<rparr>"


section \<open>Queries and the write endpoints\<close>

lemma find_id_hit:
  "e \<in> set db \<Longrightarrow> \<exists>r. find (\<lambda>r. id' r = id' e) db = Some r \<and> r \<in> set db \<and> id' r = id' e"
  by (induction db) auto

lemma find_id_distinct:
  "distinct (map id' db) \<Longrightarrow> e \<in> set db \<Longrightarrow> find (\<lambda>r. id' r = id' e) db = Some e"
  by (induction db) force+

lemma find_none_iff: "(find P xs = None) = (\<forall>x \<in> set xs. \<not> P x)"
  by (induction xs) auto

lemma find_some_mem: "find P xs = Some x \<Longrightarrow> x \<in> set xs \<and> P x"
  by (induction xs) (auto split: if_splits)

lemma create_entry_closed:
  "BRACKET_DEADLINE \<le> t \<Longrightarrow>
   create_entry t d req db = (Inl (HTTPException 403 ''Bracket entry is closed (deadline passed).''), db)"
  by (cases req) (simp add: deadline_passed_def)

lemma create_entry_ok:
  assumes "t < BRACKET_DEADLINE" and "endswith (strip (lower em)) ''@stevens.edu''"
    and "\<forall>r \<in> set db. email r \<noteq> strip (lower em)"
  shows "create_entry t d (EntryCreate nm em un) db =
     (Inr [(''id'', VInt (next_id db)), (''name'', VStr (strip nm)),
           (''email'', VStr (strip (lower em))),
           (''username'', opt_str (case un of None \<Rightarrow> None | Some u \<Rightarrow> if u = [] then None else Some (strip u)))],
      db @ [\<lparr>id' = next_id db, name = strip nm, email = strip (lower em),
              username = (case un of None \<Rightarrow> None | Some u \<Rightarrow> if u = [] then None else Some (strip u)),
              bracket = None, score = 0, locked = False, created_at = d\<rparr>])"
proof -
  have "query_first (\<lambda>r. email r = strip (lower em)) db = None"
    using assms(3) by (simp add: query_first_def find_none_iff)
  moreover have "\<not> (\<exists>r \<in> set db. email r = strip (lower em))"
    using assms(3) by simp
  ultimately show ?thesis
    using assms(1,2) by (simp add: deadline_passed_def add_commit_def Let_def)
qed

lemma create_entry_conflict:
  assumes "t < BRACKET_DEADLINE" and "endswith (strip (lower em)) ''@stevens.edu''"
    and "r \<in> set db" and "email r = strip (lower em)"
  shows "create_entry t d (EntryCreate nm em un) db = (Inl (HTTPException 409 ''Email already used''), db)"
proof -
  have "query_first (\<lambda>r. email r = strip (lower em)) db \<noteq> None"
    using assms(3,4) by (auto simp: query_first_def find_none_iff)
  then obtain x where "query_first (\<lambda>r. email r = strip (lower em)) db = Some x"
    by auto
  then show ?thesis
    using assms(1,2) by (simp add: deadline_passed_def Let_def)
qed

lemma create_entry_domain:
  assumes "\<not> endswith (strip (lower em)) ''@stevens.edu''"
  shows "create_entry t d (EntryCreate nm em un) db =
     (Inl (if BRACKET_DEADLINE \<le> t
           then HTTPException 403 ''Bracket entry is closed (deadline passed).''
           else HTTPException 400 ''Use your @stevens.edu email''), db)"
  using assms by (simp add: deadline_passed_def Let_def)

lemma submit_bracket_missing:
  "\<forall>r \<in> set db. id' r \<noteq> i \<Longrightarrow>
   submit_bracket t i D db = (Inl (HTTPException 404 ''Entry not found''), db)"
  by (simp add: submit_bracket_def query_first_def find_none_iff[THEN iffD2])

lemma submit_bracket_closed:
  assumes "BRACKET_DEADLINE \<le> t" and "e \<in> set db"
  shows "submit_bracket t (id' e) D db =
     (Inl (HTTPException 403 ''Bracket submissions are closed (deadline passed).''), db)"
proof -
  obtain r where "find (\<lambda>r. id' r = id' e) db = Some r"
    using find_id_hit[OF assms(2)] by blast
  then show ?thesis
    using assms(1) by (simp add: submit_bracket_def query_first_def deadline_passed_def)
qed

lemma submit_bracket_locked:
  assumes "t < BRACKET_DEADLINE" and "e \<in> set db" and "distinct (map id' db)" and "locked e"
  shows "submit_bracket t (id' e) D db = (Inl (HTTPException 403 ''Bracket is locked''), db)"
  using assms find_id_distinct[OF assms(3,2)]
  by (simp add: submit_bracket_def query_first_def deadline_passed_def)

lemma submit_bracket_ok:
  assumes "t < BRACKET_DEADLINE" and "e \<in> set db" and "distinct (map id' db)" and "\<not> locked e"
  shows "submit_bracket t (id' e) D db =
     (Inr [(''status'', VStr ''saved''), (''entry_id'', VInt (id' e))],
      set_bracket (id' e) (json_dumps (VDict D)) db)"
  using assms find_id_distinct[OF assms(3,2)]
  by (simp add: submit_bracket_def query_first_def deadline_passed_def)

lemma create_entry_fail_frame:
  "fst (create_entry t d req db) = Inl err \<Longrightarrow> snd (create_entry t d req db) = db"
  by (cases req)
     (auto simp: Let_def add_commit_def split: if_splits option.splits sum.splits prod.splits)

lemma submit_bracket_fail_frame:
  "fst (submit_bracket t i D db) = Inl err \<Longrightarrow> snd (submit_bracket t i D db) = db"
  by (auto simp: submit_bracket_def split: if_splits option.splits)

section \<open>\<open>order_by\<close> sorts\<close>


lemma mset_insert_by: "mset (insert_by le x xs) = add_mset x (mset xs)"
  by (induction xs) auto

lemma mset_order_by: "mset (order_by le xs) = mset xs"
  by (induction xs) (simp_all add: order_by_def mset_insert_by)








section \<open>What a write leaves alone, what a read returns\<close>

lemma set_bracket_others_same:
  "list_all2 (\<lambda>a b. id' a \<noteq> i \<longrightarrow> b = a) db (set_bracket i t db)"
  by (induction db) (auto simp: list.rel_refl)

lemma set_bracket_frame:
  "list_all2 (\<lambda>a b. id' b = id' a \<and> name b = name a \<and> email b = email a \<and>
       username b = username a \<and> score b = score a \<and> locked b = locked a \<and>
       created_at b = created_at a) db (set_bracket i t db)"
  by (induction db) (auto intro: list_all2_refl simp: list.rel_refl)


lemma foldr_max_ge: "x \<in> set xs \<Longrightarrow> x \<le> foldr max xs (b::int)"
  by (induction xs) auto

lemma next_id_fresh: "r \<in> set db \<Longrightarrow> id' r < next_id db"
  using foldr_max_ge[of "id' r" "map id' db" 0] by (simp add: next_id_def)

lemma find_append_new:
  "\<forall>r \<in> set db. \<not> P r \<Longrightarrow> P e \<Longrightarrow> find P (db @ [e]) = Some e"
  by (induction db) auto

lemma list_rows_no_email:
  "list_rows es = Inr rs \<Longrightarrow> \<forall>r \<in> set rs. ''email'' \<notin> fst ` set r"
  by (induction es arbitrary: rs) (auto split: sum.splits)

lemma list_rows_length: "list_rows es = Inr rs \<Longrightarrow> length rs = length es"
  by (induction es arbitrary: rs) (auto split: sum.splits)

lemma get_entry_email:
  assumes "get_entry i db = Inr r"
  shows "\<exists>e \<in> set db. id' e = i \<and> map_of r ''email'' = Some (VStr (email e))"
proof -
  from assms obtain e where e: "find (\<lambda>r. id' r = i) db = Some e"
    by (auto simp: get_entry_def query_first_def split: option.splits)
  with assms have "map_of r ''email'' = Some (VStr (email e))"
    by (auto simp: get_entry_def query_first_def split: sum.splits)
  with find_some_mem[OF e] show ?thesis by blast
qed

lemma view_bracket_email:
  assumes "view_bracket i db = Inr r"
  shows "\<exists>e \<in> set db. id' e = i \<and> map_of r ''email'' = Some (VStr (email e))"
proof -
  from assms obtain e where e: "find (\<lambda>r. id' r = i) db = Some e"
    by (auto simp: view_bracket_def query_first_def split: option.splits)
  with assms have "map_of r ''email'' = Some (VStr (email e))"
    by (auto simp: view_bracket_def query_first_def split: sum.splits)
  with find_some_mem[OF e] show ?thesis by blast
qed

lemma create_entry_success_shape:
  assumes "create_entry t d (EntryCreate nm em un) db = (Inr resp, db')"
  shows "\<exists>e. db' = db @ [e] \<and> id' e = next_id db \<and> email e = strip (lower em) \<and>
             name e = strip nm \<and> bracket e = None \<and> score e = 0 \<and> \<not> locked e \<and>
             created_at e = d \<and> map_of resp ''id'' = Some (VInt (id' e)) \<and>
             map_of resp ''email'' = Some (VStr (email e))"
  using assms
  by (auto simp: Let_def add_commit_def split: if_splits option.splits)

lemma length_order_by: "length (order_by le xs) = length xs"
  using mset_order_by[of le xs] by (metis size_mset)

lemma get_entry_new:
  assumes "create_entry t d (EntryCreate nm em un) db = (Inr resp, db')"
  shows "\<exists>r. get_entry (next_id db) db' = Inr r \<and>
             map_of r ''email'' = Some (VStr (strip (lower em)))"
proof -
  from create_entry_success_shape[OF assms] obtain e where
    e: "db' = db @ [e]" "id' e = next_id db" "email e = strip (lower em)" "bracket e = None"
    by blast
  have "\<forall>r \<in> set db. \<not> id' r = next_id db"
    using next_id_fresh by fastforce
  then have "find (\<lambda>r. id' r = next_id db) (db @ [e]) = Some e"
    using e(2) by (intro find_append_new) simp_all
  then show ?thesis
    using e by (simp add: get_entry_def query_first_def load_bracket_def)
qed

section \<open>Decoding what \<open>json.dumps\<close> wrote\<close>




















lemma skip_ws_Nil [simp]: "skip_ws [] = []"
  by (simp add: skip_ws_def)
































section \<open>The decoder's bound\<close>

text \<open>
  Every successful step of the decoder consumes text, and a text of length \<open>n\<close> causes no
  chain of calls longer than \<open>2 * n + 1\<close>: \<open>json_loads\<close> never runs out of the bound it
  hands to \<open>scan_once\<close>.
\<close>

lemma length_skip_ws: "length (skip_ws s) \<le> length s"
  by (simp add: skip_ws_def length_dropWhile_le)

lemma cons_result_Inr:
  "cons_result c x = Inr (t, r) \<Longrightarrow> \<exists>t'. x = Inr (t', r)"
  by (auto simp: cons_result_def split: sum.splits)

lemma cons_result_Inl: "cons_result c x = Inl e \<Longrightarrow> x = Inl e"
  by (auto simp: cons_result_def split: sum.splits)

lemma scanstring_quote: "scanstring (CHR 0x22 # cs) = Inr ([], cs)"
  by simp

lemma scanstring_plain:
  "c \<noteq> CHR 0x22 \<Longrightarrow> c \<noteq> CHR 0x5C \<Longrightarrow>
   scanstring (c # cs) =
     (if (of_char c :: nat) < 0x20 then Inl JSONDecodeError else cons_result c (scanstring cs))"
  by simp

lemma scanstring_backslash_end: "scanstring [CHR 0x5C] = Inl JSONDecodeError"
  by simp

lemma scanstring_simple_escape:
  "e \<noteq> CHR ''u'' \<Longrightarrow>
   scanstring (CHR 0x5C # e # rest) =
     (case unescape e of None \<Rightarrow> Inl JSONDecodeError
      | Some ch \<Rightarrow> cons_result ch (scanstring rest))"
  by simp

lemma scanstring_u_short:
  "length rest < 4 \<Longrightarrow> scanstring (CHR 0x5C # CHR ''u'' # rest) = Inl JSONDecodeError"
  by (auto split: list.splits)

lemma scanstring_u:
  "scanstring (CHR 0x5C # CHR ''u'' # h1 # h2 # h3 # h4 # r') =
     (case hex4 h1 h2 h3 h4 of None \<Rightarrow> Inl JSONDecodeError
      | Some n \<Rightarrow> if n < 256 then cons_result (char_of n) (scanstring r') else Inl NotModelled)"
  by simp

lemma scanstring_shape:
  obtains (empty) "s = []"
  | (quote) cs where "s = CHR 0x22 # cs"
  | (plain) c cs where "s = c # cs" "c \<noteq> CHR 0x22" "c \<noteq> CHR 0x5C"
  | (dangling) "s = [CHR 0x5C]"
  | (escape) e rest where "s = CHR 0x5C # e # rest" "e \<noteq> CHR ''u''"
  | (short) rest where "s = CHR 0x5C # CHR ''u'' # rest" "length rest < 4"
  | (unicode) h1 h2 h3 h4 r' where "s = CHR 0x5C # CHR ''u'' # h1 # h2 # h3 # h4 # r'"
proof (cases s)
  case Nil
  then show ?thesis by (rule empty)
next
  case (Cons c cs)
  show ?thesis
  proof (cases "c = CHR 0x22")
    case True
    with Cons show ?thesis by (intro quote) simp
  next
    case nq: False
    show ?thesis
    proof (cases "c = CHR 0x5C")
      case False
      with Cons nq show ?thesis by (intro plain)
    next
      case bs: True
      show ?thesis
      proof (cases cs)
        case Nil
        with Cons bs show ?thesis by (intro dangling) simp
      next
        case (Cons e rest)
        note cs = this
        show ?thesis
        proof (cases "e = CHR ''u''")
          case False
          with \<open>s = c # cs\<close> bs cs show ?thesis by (intro escape) simp_all
        next
          case u: True
          show ?thesis
          proof (cases "length rest < 4")
            case True
            with \<open>s = c # cs\<close> bs cs u show ?thesis by (intro short) simp_all
          next
            case False
            then have "4 \<le> length rest" by simp
            then obtain h1 h2 h3 h4 r' where "rest = h1 # h2 # h3 # h4 # r'"
              by (auto simp: numeral_eq_Suc Suc_le_length_iff)
            with \<open>s = c # cs\<close> bs cs u show ?thesis by (intro unicode) simp
          qed
        qed
      qed
    qed
  qed
qed

lemma scanstring_shorter: "scanstring s = Inr (t, r) \<Longrightarrow> length r < length s"
proof (induction "length s" arbitrary: s t rule: less_induct)
  case less
  note eq = less.prems
  show ?case
  proof (cases s rule: scanstring_shape)
    case empty
    with eq show ?thesis by simp
  next
    case (quote cs)
    with eq show ?thesis by simp
  next
    case (plain c cs)
    from eq have "(if (of_char c :: nat) < 0x20 then Inl JSONDecodeError
        else cons_result c (scanstring cs)) = Inr (t, r)"
      unfolding plain(1) scanstring_plain[OF plain(2,3)] .
    then obtain t' where "scanstring cs = Inr (t', r)"
      by (auto split: if_splits dest: cons_result_Inr)
    from less.hyps[OF _ this] plain(1) show ?thesis by simp
  next
    case dangling
    with eq show ?thesis by simp
  next
    case (escape e rest)
    from eq have "(case unescape e of None \<Rightarrow> Inl JSONDecodeError
        | Some ch \<Rightarrow> cons_result ch (scanstring rest)) = Inr (t, r)"
      unfolding escape(1) scanstring_simple_escape[OF escape(2)] .
    then obtain t' where "scanstring rest = Inr (t', r)"
      by (auto split: option.splits dest: cons_result_Inr)
    from less.hyps[OF _ this] escape(1) show ?thesis by simp
  next
    case (short rest)
    from eq show ?thesis
      unfolding short(1) scanstring_u_short[OF short(2)] by simp
  next
    case (unicode h1 h2 h3 h4 r')
    from eq have "(case hex4 h1 h2 h3 h4 of None \<Rightarrow> Inl JSONDecodeError
        | Some n \<Rightarrow> if n < 256 then cons_result (char_of n) (scanstring r') else Inl NotModelled) =
        Inr (t, r)"
      unfolding unicode scanstring_u .
    then obtain t' where "scanstring r' = Inr (t', r)"
      by (auto split: option.splits if_splits dest: cons_result_Inr)
    from less.hyps[OF _ this] unicode show ?thesis by simp
  qed
qed

lemma scanstring_fuel: "scanstring s \<noteq> Inl FuelExhausted"
proof (induction "length s" arbitrary: s rule: less_induct)
  case less
  show ?case
  proof (cases s rule: scanstring_shape)
    case empty
    then show ?thesis by simp
  next
    case (quote cs)
    then show ?thesis by simp
  next
    case (plain c cs)
    have "scanstring cs \<noteq> Inl FuelExhausted"
      using less.hyps[of cs] plain(1) by simp
    then have "(if (of_char c :: nat) < 0x20 then Inl JSONDecodeError
        else cons_result c (scanstring cs)) \<noteq> Inl FuelExhausted"
      by (auto dest: cons_result_Inl)
    then show ?thesis
      unfolding plain(1) scanstring_plain[OF plain(2,3)] .
  next
    case dangling
    then show ?thesis by simp
  next
    case (escape e rest)
    have "scanstring rest \<noteq> Inl FuelExhausted"
      using less.hyps[of rest] escape(1) by simp
    then have "(case unescape e of None \<Rightarrow> Inl JSONDecodeError
        | Some ch \<Rightarrow> cons_result ch (scanstring rest)) \<noteq> Inl FuelExhausted"
      by (auto split: option.splits dest: cons_result_Inl)
    then show ?thesis
      unfolding escape(1) scanstring_simple_escape[OF escape(2)] .
  next
    case (short rest)
    show ?thesis
      unfolding short(1) scanstring_u_short[OF short(2)] by simp
  next
    case (unicode h1 h2 h3 h4 r')
    have "scanstring r' \<noteq> Inl FuelExhausted"
      using less.hyps[of r'] unicode by simp
    then have "(case hex4 h1 h2 h3 h4 of None \<Rightarrow> Inl JSONDecodeError
        | Some n \<Rightarrow> if n < 256 then cons_result (char_of n) (scanstring r') else Inl NotModelled) \<noteq>
        Inl FuelExhausted"
      by (auto split: option.splits dest: cons_result_Inl)
    then show ?thesis
      unfolding unicode scanstring_u .
  qed
qed

lemma scan_number_shorter:
  assumes "scan_number s = Inr (v, r)"
  shows "length r < length s"
proof -
  let ?s1 = "if s \<noteq> [] \<and> hd s = CHR ''-'' then tl s else s"
  let ?ds = "if hd ?s1 = CHR ''0'' then [hd ?s1] else takeWhile is_digit ?s1"
  from assms have d: "?s1 \<noteq> []" "is_digit (hd ?s1)" and r: "r = drop (length ?ds) ?s1"
    by (auto simp: scan_number_def Let_def split: if_splits)
  from d have "takeWhile is_digit ?s1 \<noteq> []"
    by (cases ?s1) auto
  then have "0 < length ?ds" by simp
  with d(1) have "length (drop (length ?ds) ?s1) < length ?s1"
    by simp
  moreover have "length ?s1 \<le> length s" by simp
  ultimately show ?thesis using r by simp
qed

lemma scan_number_fuel: "scan_number s \<noteq> Inl FuelExhausted"
  by (simp add: scan_number_def Let_def)

lemma tl_skip_le: "length (tl (skip_ws s)) \<le> length s"
  using length_skip_ws[of s] by simp

lemma skip_tl_skip_le: "length (skip_ws (tl (skip_ws s))) \<le> length s"
  using length_skip_ws[of "tl (skip_ws s)"] tl_skip_le[of s] by simp

lemma tl_skip_tl_skip_le: "length (tl (skip_ws (tl (skip_ws s)))) \<le> length s"
  using skip_tl_skip_le[of s] by simp

lemma JSONArray_step:
  assumes "JSONArray (Suc n) s = Inr (vs, r)"
  obtains v r0 where "scan_once n s = Inr (v, r0)"
    and "r = tl (skip_ws r0) \<and> skip_ws r0 \<noteq> [] \<or>
         (\<exists>vs'. skip_ws r0 \<noteq> [] \<and> JSONArray n (skip_ws (tl (skip_ws r0))) = Inr (vs', r))"
  using assms by (auto simp: Let_def split: sum.splits if_splits)

lemma JSONObject_step:
  assumes "JSONObject (Suc n) s = Inr (kvs, r)"
  obtains key r0 v r2 where "scanstring s = Inr (key, r0)" and "skip_ws r0 \<noteq> []"
    and "scan_once n (skip_ws (tl (skip_ws r0))) = Inr (v, r2)"
    and "skip_ws r2 \<noteq> []"
    and "r = tl (skip_ws r2) \<or>
         (\<exists>kvs'. skip_ws (tl (skip_ws r2)) \<noteq> [] \<and>
            JSONObject n (tl (skip_ws (tl (skip_ws r2)))) = Inr (kvs', r))"
  using assms by (auto simp: Let_def split: sum.splits if_splits)

lemma scan_once_step:
  assumes "scan_once (Suc n) (c # cs) = Inr (v, r)"
  shows "(\<exists>t. scanstring cs = Inr (t, r)) \<or>
     (skip_ws cs \<noteq> [] \<and> r = tl (skip_ws cs)) \<or>
     (\<exists>kvs. skip_ws cs \<noteq> [] \<and> JSONObject n (tl (skip_ws cs)) = Inr (kvs, r)) \<or>
     (\<exists>vs. JSONArray n (skip_ws cs) = Inr (vs, r)) \<or>
     r = drop 3 cs \<or> r = drop 4 cs \<or>
     scan_number (c # cs) = Inr (v, r)"
  using assms by (auto simp: Let_def split: sum.splits if_splits)

lemma scan_shorter_all:
  "(\<forall>s v r. scan_once n s = Inr (v, r) \<longrightarrow> length r < length s) \<and>
   (\<forall>s vs r. JSONArray n s = Inr (vs, r) \<longrightarrow> length r < length s) \<and>
   (\<forall>s kvs r. JSONObject n s = Inr (kvs, r) \<longrightarrow> length r < length s)"
proof (induction n)
  case 0
  show ?case by simp
next
  case (Suc n)
  then have so: "\<And>s v r. scan_once n s = Inr (v, r) \<Longrightarrow> length r < length s"
    and ja: "\<And>s vs r. JSONArray n s = Inr (vs, r) \<Longrightarrow> length r < length s"
    and jo: "\<And>s kvs r. JSONObject n s = Inr (kvs, r) \<Longrightarrow> length r < length s"
    by blast+
  have 1: "length r < length s" if eq: "scan_once (Suc n) s = Inr (v, r)" for s v r
  proof (cases s)
    case Nil
    with eq show ?thesis by simp
  next
    case (Cons c cs)
    from scan_once_step[OF eq[unfolded Cons]]
    consider (str) t where "scanstring cs = Inr (t, r)"
      | (empty) "skip_ws cs \<noteq> []" "r = tl (skip_ws cs)"
      | (obj) kvs where "skip_ws cs \<noteq> []" "JSONObject n (tl (skip_ws cs)) = Inr (kvs, r)"
      | (arr) vs where "JSONArray n (skip_ws cs) = Inr (vs, r)"
      | (const) "r = drop 3 cs \<or> r = drop 4 cs"
      | (num) "scan_number (c # cs) = Inr (v, r)"
      by blast
    then show ?thesis
    proof cases
      case str
      from scanstring_shorter[OF this] Cons show ?thesis by simp
    next
      case empty
      with tl_skip_le[of cs] Cons show ?thesis by simp
    next
      case obj
      from jo[OF obj(2)] tl_skip_le[of cs] Cons show ?thesis by simp
    next
      case arr
      from ja[OF arr] length_skip_ws[of cs] Cons show ?thesis by simp
    next
      case const
      with Cons show ?thesis by auto
    next
      case num
      from scan_number_shorter[OF this] Cons show ?thesis by simp
    qed
  qed
  have 2: "length r < length s" if eq: "JSONArray (Suc n) s = Inr (vs, r)" for s vs r
  proof -
    from eq obtain v r0 where a: "scan_once n s = Inr (v, r0)"
      and b: "r = tl (skip_ws r0) \<and> skip_ws r0 \<noteq> [] \<or>
         (\<exists>vs'. skip_ws r0 \<noteq> [] \<and> JSONArray n (skip_ws (tl (skip_ws r0))) = Inr (vs', r))"
      by (rule JSONArray_step)
    from so[OF a] have r0: "length r0 < length s" .
    from b show ?thesis
    proof
      assume "r = tl (skip_ws r0) \<and> skip_ws r0 \<noteq> []"
      with tl_skip_le[of r0] r0 show ?thesis by simp
    next
      assume "\<exists>vs'. skip_ws r0 \<noteq> [] \<and> JSONArray n (skip_ws (tl (skip_ws r0))) = Inr (vs', r)"
      then obtain vs' where "JSONArray n (skip_ws (tl (skip_ws r0))) = Inr (vs', r)" by blast
      from ja[OF this] skip_tl_skip_le[of r0] r0 show ?thesis by simp
    qed
  qed
  have 3: "length r < length s" if eq: "JSONObject (Suc n) s = Inr (kvs, r)" for s kvs r
  proof -
    from eq obtain key r0 v r2 where a: "scanstring s = Inr (key, r0)"
      and b: "scan_once n (skip_ws (tl (skip_ws r0))) = Inr (v, r2)"
      and c: "r = tl (skip_ws r2) \<or>
         (\<exists>kvs'. skip_ws (tl (skip_ws r2)) \<noteq> [] \<and>
            JSONObject n (tl (skip_ws (tl (skip_ws r2)))) = Inr (kvs', r))"
      by (rule JSONObject_step)
    from scanstring_shorter[OF a] have r0: "length r0 < length s" .
    from so[OF b] skip_tl_skip_le[of r0] r0 have r2: "length r2 < length s" by simp
    from c show ?thesis
    proof
      assume "r = tl (skip_ws r2)"
      with tl_skip_le[of r2] r2 show ?thesis by simp
    next
      assume "\<exists>kvs'. skip_ws (tl (skip_ws r2)) \<noteq> [] \<and>
            JSONObject n (tl (skip_ws (tl (skip_ws r2)))) = Inr (kvs', r)"
      then obtain kvs' where "JSONObject n (tl (skip_ws (tl (skip_ws r2)))) = Inr (kvs', r)"
        by blast
      from jo[OF this] tl_skip_tl_skip_le[of r2] r2 show ?thesis by simp
    qed
  qed
  from 1 2 3 show ?case by blast
qed

lemma scan_once_shorter: "scan_once n s = Inr (v, r) \<Longrightarrow> length r < length s"
  using scan_shorter_all[of n] by blast

lemma scan_once_fuel_step:
  assumes "scan_once (Suc n) (c # cs) = Inl FuelExhausted"
  shows "scanstring cs = Inl FuelExhausted \<or>
     JSONObject n (tl (skip_ws cs)) = Inl FuelExhausted \<or>
     JSONArray n (skip_ws cs) = Inl FuelExhausted \<or>
     scan_number (c # cs) = Inl FuelExhausted"
  using assms by (auto simp: Let_def split: sum.splits if_splits)

lemma JSONArray_fuel_step:
  assumes "JSONArray (Suc n) s = Inl FuelExhausted"
  shows "scan_once n s = Inl FuelExhausted \<or>
     (\<exists>v r0. scan_once n s = Inr (v, r0) \<and> skip_ws r0 \<noteq> [] \<and>
        JSONArray n (skip_ws (tl (skip_ws r0))) = Inl FuelExhausted)"
  using assms by (auto simp: Let_def split: sum.splits if_splits)

lemma JSONObject_fuel_step:
  assumes "JSONObject (Suc n) s = Inl FuelExhausted"
  shows "scanstring s = Inl FuelExhausted \<or>
     (\<exists>key r0. scanstring s = Inr (key, r0) \<and> skip_ws r0 \<noteq> [] \<and>
        (scan_once n (skip_ws (tl (skip_ws r0))) = Inl FuelExhausted \<or>
         (\<exists>v r2. scan_once n (skip_ws (tl (skip_ws r0))) = Inr (v, r2) \<and>
            JSONObject n (tl (skip_ws (tl (skip_ws r2)))) = Inl FuelExhausted)))"
  using assms by (auto simp: Let_def split: sum.splits if_splits)

lemma tl_skip_less: "skip_ws s \<noteq> [] \<Longrightarrow> length (tl (skip_ws s)) < length s"
  using length_skip_ws[of s] by (cases "skip_ws s") auto

lemma scan_fuel_all:
  "(\<forall>s. 2 * length s < n \<longrightarrow> scan_once n s \<noteq> Inl FuelExhausted) \<and>
   (\<forall>s. 2 * length s + 1 < n \<longrightarrow> JSONArray n s \<noteq> Inl FuelExhausted) \<and>
   (\<forall>s. 2 * length s < n \<longrightarrow> JSONObject n s \<noteq> Inl FuelExhausted)"
proof (induction n)
  case 0
  show ?case by simp
next
  case (Suc n)
  then have so: "\<And>s. 2 * length s < n \<Longrightarrow> scan_once n s \<noteq> Inl FuelExhausted"
    and ja: "\<And>s. 2 * length s + 1 < n \<Longrightarrow> JSONArray n s \<noteq> Inl FuelExhausted"
    and jo: "\<And>s. 2 * length s < n \<Longrightarrow> JSONObject n s \<noteq> Inl FuelExhausted"
    by blast+
  have 1: "scan_once (Suc n) s \<noteq> Inl FuelExhausted" if len: "2 * length s < Suc n" for s
  proof (cases s)
    case Nil
    then show ?thesis by simp
  next
    case (Cons c cs)
    have "2 * length (tl (skip_ws cs)) < n"
      using tl_skip_le[of cs] len Cons by simp
    then have a: "JSONObject n (tl (skip_ws cs)) \<noteq> Inl FuelExhausted" by (rule jo)
    have "2 * length (skip_ws cs) + 1 < n"
      using length_skip_ws[of cs] len Cons by simp
    then have b: "JSONArray n (skip_ws cs) \<noteq> Inl FuelExhausted" by (rule ja)
    show ?thesis
      unfolding Cons
      using scan_once_fuel_step[of n c cs] a b scanstring_fuel[of cs] scan_number_fuel[of "c # cs"]
      by blast
  qed
  have 2: "JSONArray (Suc n) s \<noteq> Inl FuelExhausted" if len: "2 * length s + 1 < Suc n" for s
  proof
    assume "JSONArray (Suc n) s = Inl FuelExhausted"
    from JSONArray_fuel_step[OF this] show False
    proof
      assume "scan_once n s = Inl FuelExhausted"
      moreover have "2 * length s < n" using len by simp
      ultimately show False using so by blast
    next
      assume "\<exists>v r0. scan_once n s = Inr (v, r0) \<and> skip_ws r0 \<noteq> [] \<and>
        JSONArray n (skip_ws (tl (skip_ws r0))) = Inl FuelExhausted"
      then obtain v r0 where a: "scan_once n s = Inr (v, r0)" and b: "skip_ws r0 \<noteq> []"
        and c: "JSONArray n (skip_ws (tl (skip_ws r0))) = Inl FuelExhausted"
        by blast
      have "length (skip_ws (tl (skip_ws r0))) < length r0"
        using length_skip_ws[of "tl (skip_ws r0)"] tl_skip_less[OF b] by simp
      with scan_once_shorter[OF a] len have "2 * length (skip_ws (tl (skip_ws r0))) + 1 < n"
        by simp
      from ja[OF this] c show False by simp
    qed
  qed
  have 3: "JSONObject (Suc n) s \<noteq> Inl FuelExhausted" if len: "2 * length s < Suc n" for s
  proof
    assume "JSONObject (Suc n) s = Inl FuelExhausted"
    from JSONObject_fuel_step[OF this] scanstring_fuel[of s]
    obtain key r0 where a: "scanstring s = Inr (key, r0)" and b: "skip_ws r0 \<noteq> []"
      and c: "scan_once n (skip_ws (tl (skip_ws r0))) = Inl FuelExhausted \<or>
         (\<exists>v r2. scan_once n (skip_ws (tl (skip_ws r0))) = Inr (v, r2) \<and>
            JSONObject n (tl (skip_ws (tl (skip_ws r2)))) = Inl FuelExhausted)"
      by blast
    have inner: "length (skip_ws (tl (skip_ws r0))) < length r0"
      using length_skip_ws[of "tl (skip_ws r0)"] tl_skip_less[OF b] by simp
    with scanstring_shorter[OF a] len have d: "2 * length (skip_ws (tl (skip_ws r0))) < n"
      by simp
    from c show False
    proof
      assume "scan_once n (skip_ws (tl (skip_ws r0))) = Inl FuelExhausted"
      with so[OF d] show False by simp
    next
      assume "\<exists>v r2. scan_once n (skip_ws (tl (skip_ws r0))) = Inr (v, r2) \<and>
            JSONObject n (tl (skip_ws (tl (skip_ws r2)))) = Inl FuelExhausted"
      then obtain v r2 where e: "scan_once n (skip_ws (tl (skip_ws r0))) = Inr (v, r2)"
        and f: "JSONObject n (tl (skip_ws (tl (skip_ws r2)))) = Inl FuelExhausted"
        by blast
      from scan_once_shorter[OF e] tl_skip_tl_skip_le[of r2] d
      have "2 * length (tl (skip_ws (tl (skip_ws r2)))) < n" by simp
      from jo[OF this] f show False by simp
    qed
  qed
  from 1 2 3 show ?case by blast
qed

lemma json_loads_fuel: "json_loads s \<noteq> Inl FuelExhausted"
proof -
  have "2 * length (skip_ws s) < Suc (2 * length s)"
    using length_skip_ws[of s] by simp
  then have "scan_once (Suc (2 * length s)) (skip_ws s) \<noteq> Inl FuelExhausted"
    using scan_fuel_all[of "Suc (2 * length s)"] by blast
  then show ?thesis
    by (auto simp: json_loads_def split: sum.splits if_splits)
qed

section \<open>The claims\<close>

text \<open>
  C1 (as amended). A registration made at or after the deadline fails with the 403
  "closed" error whatever the request holds. A bracket submission made at or after the
  deadline for an entry that exists fails with the 403 "closed" error, locked or not; for
  an id no entry has, it fails with 404 "not found" at any time, the lookup coming before
  the deadline check. Before the deadline, a registration with an institutional email no
  entry uses succeeds and adds one row, and a submission to an existing unlocked entry
  succeeds.
\<close>

theorem deadline_gate:
  "(BRACKET_DEADLINE \<le> t \<longrightarrow>
      create_entry t d req db =
        (Inl (HTTPException 403 ''Bracket entry is closed (deadline passed).''), db)) \<and>
   (BRACKET_DEADLINE \<le> t \<and> e \<in> set db \<longrightarrow>
      submit_bracket t (id' e) D db =
        (Inl (HTTPException 403 ''Bracket submissions are closed (deadline passed).''), db)) \<and>
   ((\<forall>r \<in> set db. id' r \<noteq> i) \<longrightarrow>
      submit_bracket t i D db = (Inl (HTTPException 404 ''Entry not found''), db)) \<and>
   (t < BRACKET_DEADLINE \<and> endswith (strip (lower em)) ''@stevens.edu'' \<and>
    (\<forall>r \<in> set db. email r \<noteq> strip (lower em)) \<longrightarrow>
      (\<exists>resp new. create_entry t d (EntryCreate nm em un) db = (Inr resp, db @ [new]))) \<and>
   (t < BRACKET_DEADLINE \<and> e \<in> set db \<and> constraints db \<and> \<not> locked e \<longrightarrow>
      (\<exists>resp db'. submit_bracket t (id' e) D db = (Inr resp, db')))"
proof (intro conjI impI)
  assume "BRACKET_DEADLINE \<le> t"
  then show "create_entry t d req db =
      (Inl (HTTPException 403 ''Bracket entry is closed (deadline passed).''), db)"
    by (rule create_entry_closed)
next
  assume "BRACKET_DEADLINE \<le> t \<and> e \<in> set db"
  then show "submit_bracket t (id' e) D db =
      (Inl (HTTPException 403 ''Bracket submissions are closed (deadline passed).''), db)"
    by (simp add: submit_bracket_closed)
next
  assume "\<forall>r \<in> set db. id' r \<noteq> i"
  then show "submit_bracket t i D db = (Inl (HTTPException 404 ''Entry not found''), db)"
    by (rule submit_bracket_missing)
next
  assume "t < BRACKET_DEADLINE \<and> endswith (strip (lower em)) ''@stevens.edu'' \<and>
    (\<forall>r \<in> set db. email r \<noteq> strip (lower em))"
  then show "\<exists>resp new. create_entry t d (EntryCreate nm em un) db = (Inr resp, db @ [new])"
    using create_entry_ok[of t em db d nm un] by blast
next
  assume "t < BRACKET_DEADLINE \<and> e \<in> set db \<and> constraints db \<and> \<not> locked e"
  then show "\<exists>resp db'. submit_bracket t (id' e) D db = (Inr resp, db')"
    using submit_bracket_ok[of t e db D] by (simp add: constraints_def)
qed

theorem deadline_gate_witness:
  "create_entry (BRACKET_DEADLINE + 5) 0 (EntryCreate ''Dee'' ''dee@stevens.edu'' None) [row_a] =
     (Inl (HTTPException 403 ''Bracket entry is closed (deadline passed).''), [row_a]) \<and>
   submit_bracket (BRACKET_DEADLINE + 5) (id' row_a) [(''champion'', VStr ''Duke'')] [row_a] =
     (Inl (HTTPException 403 ''Bracket submissions are closed (deadline passed).''), [row_a]) \<and>
   submit_bracket (BRACKET_DEADLINE + 5) 9 [(''champion'', VStr ''Duke'')] [row_a] =
     (Inl (HTTPException 404 ''Entry not found''), [row_a]) \<and>
   (\<exists>resp new. create_entry (BRACKET_DEADLINE - 5) 0 (EntryCreate ''Dee'' ''dee@stevens.edu'' None) [row_a] =
     (Inr resp, [row_a] @ [new])) \<and>
   (\<exists>resp db'. submit_bracket (BRACKET_DEADLINE - 5) (id' row_a) [(''champion'', VStr ''Duke'')] [row_a] =
     (Inr resp, db'))"
proof -
  have dom: "endswith (strip (lower ''dee@stevens.edu'')) ''@stevens.edu''"
    by code_simp
  have fresh: "\<forall>r \<in> set [row_a]. email r \<noteq> strip (lower ''dee@stevens.edu'')"
    by code_simp
  have ok: "constraints [row_a]" "\<not> locked row_a" "\<forall>r \<in> set [row_a]. id' r \<noteq> 9"
    by (simp_all add: constraints_def row_a_def)
  show ?thesis
    using deadline_gate[of "BRACKET_DEADLINE + 5" 0 "EntryCreate ''Dee'' ''dee@stevens.edu'' None"
        "[row_a]" row_a "[(''champion'', VStr ''Duke'')]" 9 "''dee@stevens.edu''" "''Dee''" None]
      deadline_gate[of "BRACKET_DEADLINE - 5" 0 "EntryCreate ''Dee'' ''dee@stevens.edu'' None"
        "[row_a]" row_a "[(''champion'', VStr ''Duke'')]" 9 "''dee@stevens.edu''" "''Dee''" None]
      dom fresh ok
    by simp
qed

text \<open>
  C1 as stated fails: after the deadline, a submission for an unknown id is answered
  404 "not found", not 403 "closed".
\<close>

theorem deadline_gate_counterexample:
  "BRACKET_DEADLINE \<le> BRACKET_DEADLINE + 5 \<and>
   fst (submit_bracket (BRACKET_DEADLINE + 5) 9 [(''champion'', VStr ''Duke'')] [row_a]) =
     Inl (HTTPException 404 ''Entry not found'') \<and>
   fst (submit_bracket (BRACKET_DEADLINE + 5) 9 [(''champion'', VStr ''Duke'')] [row_a]) \<noteq>
     Inl (HTTPException 403 ''Bracket submissions are closed (deadline passed).'')"
  by (simp add: submit_bracket_def query_first_def row_a_def)

text \<open>
  C2. Two registrations, valid but for the duplication (made before the deadline, with an
  institutional email no entry uses yet), whose emails normalize to the same string: the
  first succeeds and the second fails with 409 "conflict", also when the raw emails
  differ in letter case or surrounding whitespace.
\<close>

theorem duplicate_email_conflict:
  assumes "t1 < BRACKET_DEADLINE" and "t2 < BRACKET_DEADLINE"
    and "strip (lower em1) = strip (lower em2)"
    and "endswith (strip (lower em1)) ''@stevens.edu''"
    and "\<forall>r \<in> set db. email r \<noteq> strip (lower em1)"
  shows "\<exists>resp db1.
     create_entry t1 d1 (EntryCreate nm1 em1 un1) db = (Inr resp, db1) \<and>
     create_entry t2 d2 (EntryCreate nm2 em2 un2) db1 =
       (Inl (HTTPException 409 ''Email already used''), db1)"
proof -
  let ?new = "\<lparr>id' = next_id db, name = strip nm1, email = strip (lower em1),
      username = (case un1 of None \<Rightarrow> None | Some u \<Rightarrow> if u = [] then None else Some (strip u)),
      bracket = None, score = 0, locked = False, created_at = d1\<rparr>"
  have first: "\<exists>resp. create_entry t1 d1 (EntryCreate nm1 em1 un1) db = (Inr resp, db @ [?new])"
    using create_entry_ok[OF assms(1,4,5), of d1 nm1 un1] by simp
  have mem: "?new \<in> set (db @ [?new])" and em: "email ?new = strip (lower em2)"
    using assms(3) by simp_all
  have dom2: "endswith (strip (lower em2)) ''@stevens.edu''"
    using assms(3,4) by simp
  have "create_entry t2 d2 (EntryCreate nm2 em2 un2) (db @ [?new]) =
       (Inl (HTTPException 409 ''Email already used''), db @ [?new])"
    by (rule create_entry_conflict[OF assms(2) dom2 mem em])
  with first show ?thesis by blast
qed

theorem duplicate_email_conflict_witness:
  "strip (lower ''A@Stevens.EDU '') = strip (lower ''a@stevens.edu'') \<and>
   (\<exists>resp db1.
     create_entry 10 11 (EntryCreate ''Al'' ''A@Stevens.EDU '' None) [row_b] = (Inr resp, db1) \<and>
     create_entry 20 21 (EntryCreate ''Al again'' ''a@stevens.edu'' (Some ''al'')) db1 =
       (Inl (HTTPException 409 ''Email already used''), db1))"
proof -
  have t: "(10::int) < BRACKET_DEADLINE" "(20::int) < BRACKET_DEADLINE"
    by (simp_all add: BRACKET_DEADLINE_def)
  have same: "strip (lower ''A@Stevens.EDU '') = strip (lower ''a@stevens.edu'')"
    by code_simp
  have dom: "endswith (strip (lower ''A@Stevens.EDU '')) ''@stevens.edu''"
    by code_simp
  have fresh: "\<forall>r \<in> set [row_b]. email r \<noteq> strip (lower ''A@Stevens.EDU '')"
    by code_simp
  show ?thesis
    using duplicate_email_conflict[OF t same dom fresh, of 11 "''Al''" None 21 "''Al again''" "Some ''al''"] same
    by simp
qed

text \<open>
  C3. A submission to an existing entry whose \<open>locked\<close> flag is set fails and leaves the
  table, and so the stored bracket, as it was, before the deadline as well as after it.
\<close>

theorem locked_entry_rejects:
  assumes "e \<in> set db" and "constraints db" and "locked e"
  shows "submit_bracket t (id' e) D db =
     (Inl (HTTPException 403
        (if BRACKET_DEADLINE \<le> t then ''Bracket submissions are closed (deadline passed).''
         else ''Bracket is locked'')), db)"
proof (cases "BRACKET_DEADLINE \<le> t")
  case True
  then show ?thesis using submit_bracket_closed[OF True assms(1)] by simp
next
  case False
  then have "t < BRACKET_DEADLINE" by simp
  from submit_bracket_locked[OF this assms(1) _ assms(3)] assms(2) False
  show ?thesis by (simp add: constraints_def)
qed

theorem locked_entry_rejects_witness:
  "row_b \<in> set [row_a, row_b] \<and> constraints [row_a, row_b] \<and> locked row_b \<and>
   submit_bracket 10 (id' row_b) [(''champion'', VStr ''Duke'')] [row_a, row_b] =
     (Inl (HTTPException 403 ''Bracket is locked''), [row_a, row_b]) \<and>
   submit_bracket (BRACKET_DEADLINE + 1) (id' row_b) [(''champion'', VStr ''Duke'')] [row_a, row_b] =
     (Inl (HTTPException 403 ''Bracket submissions are closed (deadline passed).''), [row_a, row_b])"
proof -
  have h: "row_b \<in> set [row_a, row_b]" "constraints [row_a, row_b]" "locked row_b"
    by (simp_all add: constraints_def row_a_def row_b_def)
  show ?thesis
    using locked_entry_rejects[OF h, of 10 "[(''champion'', VStr ''Duke'')]"]
      locked_entry_rejects[OF h, of "BRACKET_DEADLINE + 1" "[(''champion'', VStr ''Duke'')]"] h
    by (simp add: BRACKET_DEADLINE_def)
qed





text \<open>
  C6. A registration whose normalized email does not end with the institutional suffix
  fails, with 400 before the deadline and 403 from the deadline on, whatever the name and
  the username are, and the table is left without a new entry.
\<close>

theorem foreign_domain_rejected:
  assumes "\<not> endswith (strip (lower em)) ''@stevens.edu''"
  shows "create_entry t d (EntryCreate nm em un) db =
     (Inl (if BRACKET_DEADLINE \<le> t
           then HTTPException 403 ''Bracket entry is closed (deadline passed).''
           else HTTPException 400 ''Use your @stevens.edu email''), db)"
  using assms by (rule create_entry_domain)

theorem foreign_domain_rejected_witness:
  "\<not> endswith (strip (lower '' Eve@Gmail.com'')) ''@stevens.edu'' \<and>
   create_entry 10 11 (EntryCreate ''Eve'' '' Eve@Gmail.com'' (Some ''eve'')) [row_a] =
     (Inl (HTTPException 400 ''Use your @stevens.edu email''), [row_a]) \<and>
   create_entry (BRACKET_DEADLINE + 1) 11 (EntryCreate ''Eve'' '' Eve@Gmail.com'' (Some ''eve'')) [row_a] =
     (Inl (HTTPException 403 ''Bracket entry is closed (deadline passed).''), [row_a])"
proof -
  have h: "\<not> endswith (strip (lower '' Eve@Gmail.com'')) ''@stevens.edu''"
    by code_simp
  show ?thesis
    using foreign_domain_rejected[OF h, of 10 11 "''Eve''" "Some ''eve''" "[row_a]"]
      foreign_domain_rejected[OF h, of "BRACKET_DEADLINE + 1" 11 "''Eve''" "Some ''eve''" "[row_a]"] h
    by (simp add: BRACKET_DEADLINE_def)
qed

text \<open>
  C7. Every record \<open>list_entries\<close> returns, one per entry, has no \<open>email\<close> key. Every
  successful \<open>get_entry\<close> and \<open>view_bracket\<close> returns the \<open>email\<close> of the entry with
  the id asked for; for an entry \<open>create_entry\<close> has just made, that is the normalized
  email of the request.
\<close>

theorem email_only_in_single_lookup:
  "(list_entries db = Inr rs \<longrightarrow>
      length rs = length db \<and> (\<forall>r \<in> set rs. ''email'' \<notin> fst ` set r)) \<and>
   (get_entry i db = Inr r1 \<longrightarrow>
      (\<exists>e \<in> set db. id' e = i \<and> map_of r1 ''email'' = Some (VStr (email e)))) \<and>
   (view_bracket i db = Inr r2 \<longrightarrow>
      (\<exists>e \<in> set db. id' e = i \<and> map_of r2 ''email'' = Some (VStr (email e)))) \<and>
   (create_entry t d (EntryCreate nm em un) db = (Inr resp, db') \<longrightarrow>
      (\<exists>r. get_entry (next_id db) db' = Inr r \<and>
           map_of r ''email'' = Some (VStr (strip (lower em)))))"
proof (intro conjI impI)
  assume a: "list_entries db = Inr rs"
  then show "length rs = length db"
    using list_rows_length[of "order_by (\<lambda>a b. created_at a \<le> created_at b) db" rs]
    by (simp add: list_entries_def length_order_by)
  from a show "\<forall>r \<in> set rs. ''email'' \<notin> fst ` set r"
    unfolding list_entries_def by (rule list_rows_no_email)
next
  assume "get_entry i db = Inr r1"
  then show "\<exists>e \<in> set db. id' e = i \<and> map_of r1 ''email'' = Some (VStr (email e))"
    by (rule get_entry_email)
next
  assume "view_bracket i db = Inr r2"
  then show "\<exists>e \<in> set db. id' e = i \<and> map_of r2 ''email'' = Some (VStr (email e))"
    by (rule view_bracket_email)
next
  assume "create_entry t d (EntryCreate nm em un) db = (Inr resp, db')"
  then show "\<exists>r. get_entry (next_id db) db' = Inr r \<and>
           map_of r ''email'' = Some (VStr (strip (lower em)))"
    by (rule get_entry_new)
qed

theorem email_only_in_single_lookup_witness:
  "(\<exists>rs. list_entries [row_a, row_d] = Inr rs \<and> length rs = 2 \<and>
         (\<forall>r \<in> set rs. ''email'' \<notin> fst ` set r)) \<and>
   (\<exists>r1. get_entry 4 [row_a, row_d] = Inr r1 \<and>
         (\<exists>e \<in> set [row_a, row_d]. id' e = 4 \<and> map_of r1 ''email'' = Some (VStr (email e)))) \<and>
   (\<exists>r2. view_bracket 1 [row_a, row_d] = Inr r2 \<and>
         (\<exists>e \<in> set [row_a, row_d]. id' e = 1 \<and> map_of r2 ''email'' = Some (VStr (email e)))) \<and>
   (\<exists>r. get_entry (next_id [row_a, row_d])
           (snd (create_entry 10 11 (EntryCreate ''Al'' ''A@Stevens.EDU '' None) [row_a, row_d])) = Inr r \<and>
        map_of r ''email'' = Some (VStr ''a@stevens.edu''))"
proof -
  obtain rs where l: "list_entries [row_a, row_d] = Inr rs"
    by (simp add: list_entries_def order_by_def row_a_def row_d_def load_bracket_def
        json_loads_def skip_ws_def is_ws_def eval_nat_numeral)
  obtain r1 where g: "get_entry 4 [row_a, row_d] = Inr r1"
    by (simp add: get_entry_def query_first_def row_a_def row_d_def load_bracket_def
        json_loads_def skip_ws_def is_ws_def eval_nat_numeral)
  obtain r2 where v: "view_bracket 1 [row_a, row_d] = Inr r2"
    by (simp add: view_bracket_def query_first_def row_a_def row_d_def load_bracket_def)
  have n: "strip (lower ''A@Stevens.EDU '') = ''a@stevens.edu''"
    by code_simp
  have dom: "endswith (strip (lower ''A@Stevens.EDU '')) ''@stevens.edu''"
    by code_simp
  have fresh: "\<forall>r \<in> set [row_a, row_d]. email r \<noteq> strip (lower ''A@Stevens.EDU '')"
    by code_simp
  obtain resp db' where c:
    "create_entry 10 11 (EntryCreate ''Al'' ''A@Stevens.EDU '' None) [row_a, row_d] = (Inr resp, db')"
    using create_entry_ok[OF _ dom fresh, of 10 11 "''Al''" None]
    by (simp add: BRACKET_DEADLINE_def)
  show ?thesis
    using email_only_in_single_lookup[of "[row_a, row_d]" rs 4 r1 r2 10 11 "''Al''"
        "''A@Stevens.EDU ''" None resp db']
      email_only_in_single_lookup[of "[row_a, row_d]" rs 1 r1 r2 10 11 "''Al''"
        "''A@Stevens.EDU ''" None resp db'] l g v c n
    by simp
qed

text \<open>
  C8. A successful registration adds one row, with \<open>score\<close> 0 and \<open>locked\<close> false, and
  changes no other row. A successful submission for the id \<open>i\<close> leaves every entry with
  another id exactly as it was, and leaves \<open>id\<close>, \<open>name\<close>, \<open>email\<close>, \<open>username\<close>,
  \<open>score\<close>, \<open>locked\<close> and \<open>created_at\<close> of every entry, the one submitted to included,
  as they were: the bracket of that entry is all it changes.
\<close>

theorem writes_keep_score_and_lock:
  "(create_entry t d (EntryCreate nm em un) db = (Inr resp, db') \<longrightarrow>
      (\<exists>e. db' = db @ [e] \<and> score e = 0 \<and> locked e = False)) \<and>
   (submit_bracket t i D db = (Inr resp2, db2) \<longrightarrow>
      list_all2 (\<lambda>a b. id' b = id' a \<and> name b = name a \<and> email b = email a \<and>
          username b = username a \<and> score b = score a \<and> locked b = locked a \<and>
          created_at b = created_at a) db db2 \<and>
      list_all2 (\<lambda>a b. id' a \<noteq> i \<longrightarrow> b = a) db db2)"
proof (intro conjI impI)
  assume "create_entry t d (EntryCreate nm em un) db = (Inr resp, db')"
  from create_entry_success_shape[OF this]
  show "\<exists>e. db' = db @ [e] \<and> score e = 0 \<and> locked e = False"
    by blast
next
  assume "submit_bracket t i D db = (Inr resp2, db2)"
  then have "db2 = set_bracket i (json_dumps (VDict D)) db"
    by (auto simp: submit_bracket_def split: option.splits if_splits)
  then show "list_all2 (\<lambda>a b. id' b = id' a \<and> name b = name a \<and> email b = email a \<and>
          username b = username a \<and> score b = score a \<and> locked b = locked a \<and>
          created_at b = created_at a) db db2"
    using set_bracket_frame[of db i "json_dumps (VDict D)"] by simp
next
  assume "submit_bracket t i D db = (Inr resp2, db2)"
  then have "db2 = set_bracket i (json_dumps (VDict D)) db"
    by (auto simp: submit_bracket_def split: option.splits if_splits)
  then show "list_all2 (\<lambda>a b. id' a \<noteq> i \<longrightarrow> b = a) db db2"
    using set_bracket_others_same[of i db "json_dumps (VDict D)"] by simp
qed

theorem writes_keep_score_and_lock_witness:
  "(\<exists>resp e. create_entry 10 11 (EntryCreate ''Al'' ''A@Stevens.EDU '' None) [row_b] =
        (Inr resp, [row_b] @ [e]) \<and> score e = 0 \<and> locked e = False) \<and>
   (\<exists>resp2 db2. submit_bracket 10 1 [(''champion'', VStr ''Duke'')] [row_a, row_b] = (Inr resp2, db2) \<and>
      list_all2 (\<lambda>a b. id' b = id' a \<and> name b = name a \<and> email b = email a \<and>
          username b = username a \<and> score b = score a \<and> locked b = locked a \<and>
          created_at b = created_at a) [row_a, row_b] db2 \<and>
      list_all2 (\<lambda>a b. id' a \<noteq> 1 \<longrightarrow> b = a) [row_a, row_b] db2)"
proof -
  have dom: "endswith (strip (lower ''A@Stevens.EDU '')) ''@stevens.edu''"
    by code_simp
  have fresh: "\<forall>r \<in> set [row_b]. email r \<noteq> strip (lower ''A@Stevens.EDU '')"
    by code_simp
  obtain resp db' where c:
    "create_entry 10 11 (EntryCreate ''Al'' ''A@Stevens.EDU '' None) [row_b] = (Inr resp, db')"
    using create_entry_ok[OF _ dom fresh, of 10 11 "''Al''" None]
    by (simp add: BRACKET_DEADLINE_def)
  obtain resp2 db2 where s:
    "submit_bracket 10 1 [(''champion'', VStr ''Duke'')] [row_a, row_b] = (Inr resp2, db2)"
    by (simp add: submit_bracket_def query_first_def deadline_passed_def BRACKET_DEADLINE_def
        row_a_def row_b_def)
  show ?thesis
    using writes_keep_score_and_lock[where t = 10 and d = 11 and nm = "''Al''"
        and em = "''A@Stevens.EDU ''" and un = None and db = "[row_b]" and resp = resp and db' = db']
      writes_keep_score_and_lock[where t = 10 and i = 1 and D = "[(''champion'', VStr ''Duke'')]"
        and db = "[row_a, row_b]" and ?resp2.0 = resp2 and ?db2.0 = db2] c s
    by auto
qed

text \<open>
  C9. When \<open>create_entry\<close> or \<open>submit_bracket\<close> fails, for whatever reason, the table
  the request leaves is the table it found.
\<close>

theorem failure_leaves_table:
  "(fst (create_entry t d req db) = Inl err \<longrightarrow> snd (create_entry t d req db) = db) \<and>
   (fst (submit_bracket t i D db) = Inl err' \<longrightarrow> snd (submit_bracket t i D db) = db)"
  using create_entry_fail_frame[of t d req db err] submit_bracket_fail_frame[of t i D db err']
  by blast

theorem failure_leaves_table_witness:
  "fst (create_entry 10 11 (EntryCreate ''Ann'' ''ANN@stevens.edu'' None) [row_a, row_b]) =
     Inl (HTTPException 409 ''Email already used'') \<and>
   snd (create_entry 10 11 (EntryCreate ''Ann'' ''ANN@stevens.edu'' None) [row_a, row_b]) = [row_a, row_b] \<and>
   fst (submit_bracket 10 2 [(''champion'', VStr ''Duke'')] [row_a, row_b]) =
     Inl (HTTPException 403 ''Bracket is locked'') \<and>
   snd (submit_bracket 10 2 [(''champion'', VStr ''Duke'')] [row_a, row_b]) = [row_a, row_b]"
proof -
  have n: "strip (lower ''ANN@stevens.edu'') = ''ann@stevens.edu''"
    by code_simp
  have dom: "endswith (strip (lower ''ANN@stevens.edu'')) ''@stevens.edu''"
    by code_simp
  have c: "fst (create_entry 10 11 (EntryCreate ''Ann'' ''ANN@stevens.edu'' None) [row_a, row_b]) =
     Inl (HTTPException 409 ''Email already used'')"
    using create_entry_conflict[OF _ dom, of 10 row_a "[row_a, row_b]" 11 "''Ann''" None] n
    by (simp add: BRACKET_DEADLINE_def row_a_def)
  have s: "fst (submit_bracket 10 2 [(''champion'', VStr ''Duke'')] [row_a, row_b]) =
     Inl (HTTPException 403 ''Bracket is locked'')"
    by (simp add: submit_bracket_def query_first_def deadline_passed_def BRACKET_DEADLINE_def
        row_a_def row_b_def)
  show ?thesis
    using failure_leaves_table[of 10 11 "EntryCreate ''Ann'' ''ANN@stevens.edu'' None" "[row_a, row_b]"
        "HTTPException 409 ''Email already used''" 2 "[(''champion'', VStr ''Duke'')]"
        "HTTPException 403 ''Bracket is locked''"] c s
    by simp
qed

text \<open>
  C10. At the deadline instant itself the gate is closed: the comparison is \<open>>=\<close>.
  Registration is refused with 403, a submission is refused (403 for an entry that
  exists), and one microsecond earlier the gate is still open.
\<close>

theorem deadline_is_inclusive:
  "deadline_passed BRACKET_DEADLINE \<and> \<not> deadline_passed (BRACKET_DEADLINE - 1) \<and>
   create_entry BRACKET_DEADLINE d req db =
     (Inl (HTTPException 403 ''Bracket entry is closed (deadline passed).''), db) \<and>
   (\<exists>err. submit_bracket BRACKET_DEADLINE i D db = (Inl err, db)) \<and>
   (e \<in> set db \<longrightarrow>
      submit_bracket BRACKET_DEADLINE (id' e) D db =
        (Inl (HTTPException 403 ''Bracket submissions are closed (deadline passed).''), db))"
proof (intro conjI impI)
  show "deadline_passed BRACKET_DEADLINE" "\<not> deadline_passed (BRACKET_DEADLINE - 1)"
    by (simp_all add: deadline_passed_def)
  show "create_entry BRACKET_DEADLINE d req db =
     (Inl (HTTPException 403 ''Bracket entry is closed (deadline passed).''), db)"
    by (rule create_entry_closed) simp
  show "\<exists>err. submit_bracket BRACKET_DEADLINE i D db = (Inl err, db)"
    by (simp add: submit_bracket_def deadline_passed_def split: option.splits)
next
  assume "e \<in> set db"
  then show "submit_bracket BRACKET_DEADLINE (id' e) D db =
        (Inl (HTTPException 403 ''Bracket submissions are closed (deadline passed).''), db)"
    by (intro submit_bracket_closed) simp_all
qed

theorem deadline_is_inclusive_witness:
  "row_a \<in> set [row_a, row_b] \<and>
   create_entry BRACKET_DEADLINE 11 (EntryCreate ''Al'' ''al@stevens.edu'' None) [row_a, row_b] =
     (Inl (HTTPException 403 ''Bracket entry is closed (deadline passed).''), [row_a, row_b]) \<and>
   submit_bracket BRACKET_DEADLINE (id' row_a) [(''champion'', VStr ''Duke'')] [row_a, row_b] =
     (Inl (HTTPException 403 ''Bracket submissions are closed (deadline passed).''), [row_a, row_b])"
  using deadline_is_inclusive[of 11 "EntryCreate ''Al'' ''al@stevens.edu'' None" "[row_a, row_b]"
      1 "[(''champion'', VStr ''Duke'')]" row_a]
  by simp

end
